theory Spec2Isabelle
  imports Main "HOL-Library.AList"
begin

section \<open>Python values\<close>

text \<open>
  Both scripts are dynamically typed: a spreadsheet cell read by openpyxl is \<open>None\<close>, a
  bool, an int, a float or a str, and the \<open>text\<close> attribute of an element holds whatever
  was assigned to it. A float is kept as its exact value: sign, mantissa and binary
  exponent (\<open>FFin s m e\<close> is \<open>(-1)^s * m * 2^e\<close>), or one of the special values.
  Strings are lists of \<open>char\<close>; the case and whitespace functions below are those of
  Python on ASCII text. Bytes from 128 on are neither letters nor whitespace here, where
  Python's \<open>str.upper\<close> also maps letters beyond ASCII and \<open>str.strip\<close> also trims
  Unicode whitespace such as U+00A0: an address with such characters is outside the
  model, and every string the theorems below evaluate is ASCII.
\<close>

datatype pyfloat = FNan | FInf bool | FFin bool nat int

datatype pyval = PNone | PBool bool | PInt int | PFloat pyfloat | PStr string

datatype error = ValueError | TypeError | AttributeError | OverflowError | IndexError

text \<open>Truth value testing, as in \<open>if x:\<close> and \<open>if not x:\<close>.\<close>

fun truthy :: "pyval \<Rightarrow> bool" where
  "truthy PNone = False"
| "truthy (PBool b) = b"
| "truthy (PInt n) = (n \<noteq> 0)"
| "truthy (PFloat FNan) = True"
| "truthy (PFloat (FInf s)) = True"
| "truthy (PFloat (FFin s m e)) = (m \<noteq> 0)"
| "truthy (PStr s) = (s \<noteq> [])"

subsection \<open>\<open>str.upper\<close>, \<open>str.strip\<close> and \<open>in\<close>\<close>

definition upper_char :: "char \<Rightarrow> char" where
  "upper_char c =
     (case map_of (zip ''abcdefghijklmnopqrstuvwxyz'' ''ABCDEFGHIJKLMNOPQRSTUVWXYZ'') c of
        None \<Rightarrow> c
      | Some u \<Rightarrow> u)"

definition upper :: "string \<Rightarrow> string" where
  "upper s = map upper_char s"

text \<open>The ASCII characters for which \<open>str.isspace\<close> holds: TAB to CR, FS to US, space.\<close>

definition is_space :: "char \<Rightarrow> bool" where
  "is_space c =
     (c \<in> set [CHR 0x09, CHR 0x0A, CHR 0x0B, CHR 0x0C, CHR 0x0D,
                CHR 0x1C, CHR 0x1D, CHR 0x1E, CHR 0x1F, CHR '' ''])"

definition strip :: "string \<Rightarrow> string" where
  "strip s = rev (dropWhile is_space (rev (dropWhile is_space s)))"

fun starts_with :: "string \<Rightarrow> string \<Rightarrow> bool" where
  "starts_with [] s = True"
| "starts_with (p # ps) [] = False"
| "starts_with (p # ps) (c # cs) = (p = c \<and> starts_with ps cs)"

text \<open>\<open>contains p s\<close> is Python's \<open>p in s\<close> on two strings.\<close>

fun contains :: "string \<Rightarrow> string \<Rightarrow> bool" where
  "contains p [] = (p = [])"
| "contains p (c # cs) = (starts_with p (c # cs) \<or> contains p cs)"

subsection \<open>Formatting with \<open>.2f\<close>\<close>

definition digit :: "nat \<Rightarrow> char" where
  "digit d = ''0123456789'' ! d"

fun dec :: "nat \<Rightarrow> string" where
  "dec n = (if n < 10 then [digit n] else dec (n div 10) @ [digit (n mod 10)])"

declare dec.simps [simp del]

text \<open>
  \<open>round_div a d\<close> is \<open>a / d\<close> rounded to the nearest natural number, a tie going to
  the even neighbour: the rounding of the float formatter and of the conversion from
  int to float.
\<close>

definition round_div :: "nat \<Rightarrow> nat \<Rightarrow> nat" where
  "round_div a d =
     (let q = a div d; r = a mod d
      in if d < 2 * r \<or> (2 * r = d \<and> odd q) then q + 1 else q)"

text \<open>The number of hundredths shown for the magnitude \<open>m * 2^e\<close>.\<close>

definition hundredths :: "nat \<Rightarrow> int \<Rightarrow> nat" where
  "hundredths m e =
     (if 0 \<le> e then 100 * m * 2 ^ nat e else round_div (100 * m) (2 ^ nat (- e)))"

definition fixed2 :: "bool \<Rightarrow> nat \<Rightarrow> string" where
  "fixed2 neg h =
     (if neg then ''-'' else '''') @ dec (h div 100) @ ''.'' @
       [digit (h mod 100 div 10), digit (h mod 10)]"

fun format_float :: "pyfloat \<Rightarrow> string" where
  "format_float FNan = ''nan''"
| "format_float (FInf neg) = (if neg then ''-inf'' else ''inf'')"
| "format_float (FFin neg m e) = fixed2 neg (hundredths m e)"

text \<open>
  The conversion of an int to the nearest double. A magnitude below \<open>2^53\<close> is exact;
  a larger one is rounded to 53 bits, and the conversion raises OverflowError when the
  rounded value does not fit a double.
\<close>

function excess_bits :: "nat \<Rightarrow> nat" where
  "excess_bits a = (if a < 2 ^ 53 then 0 else Suc (excess_bits (a div 2)))"
  by pat_completeness auto
termination
  by (relation "measure id") auto

declare excess_bits.simps [simp del]

definition float_of_int :: "int \<Rightarrow> error + pyfloat" where
  "float_of_int n =
     (let a = nat \<bar>n\<bar>; sh = excess_bits a; m = round_div a (2 ^ sh)
      in if 2 ^ 1024 \<le> m * 2 ^ sh then Inl OverflowError
         else Inr (FFin (n < 0) m (int sh)))"

text \<open>\<open>format_2f v\<close> is \<open>f"{v:.2f}"\<close>.\<close>

fun format_2f :: "pyval \<Rightarrow> error + string" where
  "format_2f PNone = Inl TypeError"
| "format_2f (PStr s) = Inl ValueError"
| "format_2f (PFloat x) = Inr (format_float x)"
| "format_2f (PInt n) =
     (case float_of_int n of Inl e \<Rightarrow> Inl e | Inr x \<Rightarrow> Inr (format_float x))"
| "format_2f (PBool b) =
     (case float_of_int (if b then 1 else 0) of Inl e \<Rightarrow> Inl e | Inr x \<Rightarrow> Inr (format_float x))"

section \<open>The document tree\<close>

text \<open>
  An \<open>xml.etree.ElementTree\<close> element: tag, attribute dictionary (in insertion order),
  text and children. The tail text, which neither script reads or writes, is left out.
  The scripts mutate elements in place and never add, remove or move one, so an element
  is identified by its position among the children of its parent.
\<close>

datatype element =
  Element (tag: string) (attrib: "(string \<times> string) list") (text_of: pyval)
    (children: "element list")

definition set_text :: "element \<Rightarrow> pyval \<Rightarrow> element" where
  "set_text e v = Element (tag e) (attrib e) v (children e)"

definition set_child :: "element \<Rightarrow> nat \<Rightarrow> element \<Rightarrow> element" where
  "set_child e i c = Element (tag e) (attrib e) (text_of e) ((children e)[i := c])"

definition set_children :: "element \<Rightarrow> element list \<Rightarrow> element" where
  "set_children e cs = Element (tag e) (attrib e) (text_of e) cs"

definition get_attr :: "element \<Rightarrow> string \<Rightarrow> string option" where
  "get_attr e k = map_of (attrib e) k"

definition set_attr :: "element \<Rightarrow> string \<Rightarrow> string \<Rightarrow> element" where
  "set_attr e k v = Element (tag e) (AList.update k v (attrib e)) (text_of e) (children e)"

fun first_pos :: "('a \<Rightarrow> bool) \<Rightarrow> 'a list \<Rightarrow> nat option" where
  "first_pos P [] = None"
| "first_pos P (x # xs) = (if P x then Some 0 else map_option Suc (first_pos P xs))"

text \<open>
  \<open>find_child P e\<close> is \<open>e.find(path)\<close>: the position of the first direct child that the
  path selects, \<open>has_tag t\<close> for the path \<open>t\<close> and \<open>is_z_axis\<close> for \<open>XDFAXIS[@id='z']\<close>.
\<close>

definition find_child :: "(element \<Rightarrow> bool) \<Rightarrow> element \<Rightarrow> nat option" where
  "find_child P e = first_pos P (children e)"

definition has_tag :: "string \<Rightarrow> element \<Rightarrow> bool" where
  "has_tag t e = (tag e = t)"

definition is_z_axis :: "element \<Rightarrow> bool" where
  "is_z_axis e = (tag e = ''XDFAXIS'' \<and> get_attr e ''id'' = Some ''z'')"

text \<open>
  Writing the tree: the serializer skips a text that is false and raises TypeError on
  any other text that is not a str.
\<close>

fun writable_text :: "pyval \<Rightarrow> bool" where
  "writable_text (PStr s) = True"
| "writable_text v = (\<not> truthy v)"

fun serializable :: "element \<Rightarrow> bool" where
  "serializable (Element t a x cs) = (writable_text x \<and> list_all serializable cs)"

text \<open>What \<open>ET.parse\<close> returns: every text is \<open>None\<close> or a str.\<close>

fun parsed_text :: "pyval \<Rightarrow> bool" where
  "parsed_text PNone = True"
| "parsed_text (PStr s) = True"
| "parsed_text v = False"

fun parsed :: "element \<Rightarrow> bool" where
  "parsed (Element t a x cs) = (parsed_text x \<and> list_all parsed cs)"

text \<open>What the scripts print, and what a run leaves behind.\<close>

datatype event =
    RenamedTitle pyval pyval string
  | UpdatedMax "pyfloat option" pyval string
  | NoTableWarning string pyval
  | RenamedCategory string string
  | RenamedTableTitle string string
  | WroteOutput

record result =
  written :: "element option"
  printed :: "event list"
  raised :: "error option"

section \<open>n54-excel-validation-modifier.py\<close>

record row =
  param_name :: pyval
  xdf_address :: pyval
  new_max :: pyval
  new_title :: pyval

text \<open>
  \<open>load_spreadsheet_data\<close> on the rows of the sheet after the header, each the tuple of
  its cell values. All four cells are read before the name is tested.
\<close>

fun load_spreadsheet_data :: "pyval list list \<Rightarrow> error + row list" where
  "load_spreadsheet_data [] = Inr []"
| "load_spreadsheet_data (r # rs) =
     (if length r < 4 then Inl IndexError
      else (case load_spreadsheet_data rs of
              Inl e \<Rightarrow> Inl e
            | Inr data \<Rightarrow>
                if \<not> truthy (r ! 0) then Inr data
                else Inr (\<lparr>param_name = r ! 0, xdf_address = r ! 1,
                           new_max = r ! 2, new_title = r ! 3\<rparr> # data)))"

subsection \<open>The address index\<close>

text \<open>
  The address attribute read for a table (\<open>None\<close> when the z axis, its embedded data or
  the attribute is missing), and the key under which the table enters
  \<open>tables_by_addr\<close>, if it enters it.
\<close>

definition z_address :: "element \<Rightarrow> string option" where
  "z_address table =
     (case find_child is_z_axis table of
        None \<Rightarrow> None
      | Some j \<Rightarrow>
          (let z_axis = children table ! j in
           case find_child (has_tag ''EMBEDDEDDATA'') z_axis of
             None \<Rightarrow> None
           | Some k \<Rightarrow> get_attr (children z_axis ! k) ''mmedaddress''))"

definition index_key :: "element \<Rightarrow> string option" where
  "index_key table =
     (case z_address table of
        None \<Rightarrow> None
      | Some address \<Rightarrow> if address \<noteq> [] then Some (upper address) else None)"

fun index_tables :: "(nat \<times> element) list \<Rightarrow> (string \<rightharpoonup> nat) \<Rightarrow> (string \<rightharpoonup> nat)" where
  "index_tables [] ix = ix"
| "index_tables ((i, table) # ts) ix =
     index_tables ts (case index_key table of None \<Rightarrow> ix | Some address \<Rightarrow> ix(address \<mapsto> i))"

definition tables_of :: "element \<Rightarrow> (nat \<times> element) list" where
  "tables_of root = filter (\<lambda>(i, e). has_tag ''XDFTABLE'' e) (enumerate 0 (children root))"

definition build_index :: "element \<Rightarrow> (string \<rightharpoonup> nat)" where
  "build_index root = index_tables (tables_of root) Map.empty"

subsection \<open>The edit pass\<close>

text \<open>
  \<open>float(old_max_str)\<close> inside \<open>try\<close>/\<open>except\<close>: \<open>None\<close> when it raises. The parser of
  decimal strings is the parameter \<open>float_of_str\<close>.
\<close>

fun old_max_of :: "(string \<Rightarrow> pyfloat option) \<Rightarrow> pyval \<Rightarrow> pyfloat option" where
  "old_max_of float_of_str PNone = None"
| "old_max_of float_of_str (PStr s) = float_of_str s"
| "old_max_of float_of_str (PFloat x) = Some x"
| "old_max_of float_of_str (PInt n) =
     (case float_of_int n of Inl e \<Rightarrow> None | Inr x \<Rightarrow> Some x)"
| "old_max_of float_of_str (PBool b) =
     (case float_of_int (if b then 1 else 0) of Inl e \<Rightarrow> None | Inr x \<Rightarrow> Some x)"

definition rename_title :: "string \<Rightarrow> pyval \<Rightarrow> element \<Rightarrow> element \<times> event list" where
  "rename_title desired_addr title_val table_elem =
     (if truthy title_val then
        (case find_child (has_tag ''title'') table_elem of
           None \<Rightarrow> (table_elem, [])
         | Some j \<Rightarrow>
             (let title_elem = children table_elem ! j
              in (set_child table_elem j (set_text title_elem title_val),
                  [RenamedTitle (text_of title_elem) title_val desired_addr])))
      else (table_elem, []))"

definition raise_max ::
  "(string \<Rightarrow> pyfloat option) \<Rightarrow> string \<Rightarrow> pyval \<Rightarrow> element \<Rightarrow>
     (element \<times> event list) \<times> error option" where
  "raise_max float_of_str desired_addr max_val table_elem =
     (if max_val \<noteq> PNone then
        (case find_child is_z_axis table_elem of
           None \<Rightarrow> ((table_elem, []), None)
         | Some j \<Rightarrow>
             (let z_axis = children table_elem ! j in
              case find_child (has_tag ''max'') z_axis of
                None \<Rightarrow> ((table_elem, []), None)
              | Some k \<Rightarrow>
                  (let max_elem = children z_axis ! k;
                       old_max = old_max_of float_of_str (text_of max_elem)
                   in case format_2f max_val of
                        Inl e \<Rightarrow> ((table_elem, []), Some e)
                      | Inr s \<Rightarrow>
                          ((set_child table_elem j
                              (set_child z_axis k (set_text max_elem (PStr s))),
                            [UpdatedMax old_max max_val desired_addr]), None))))
      else ((table_elem, []), None))"

text \<open>
  One turn of the loop over the rows, on the tree and the output printed so far. The
  second component is the exception that ends the run, if one is raised.
\<close>

definition process_row ::
  "(string \<Rightarrow> pyfloat option) \<Rightarrow> (string \<rightharpoonup> nat) \<Rightarrow> element \<times> event list \<Rightarrow> row \<Rightarrow>
     (element \<times> event list) \<times> error option" where
  "process_row float_of_str tables_by_addr st row =
     (if \<not> truthy (xdf_address row) then (st, None)
      else (case xdf_address row of
              PStr a \<Rightarrow>
                (let desired_addr = upper (strip a) in
                 case tables_by_addr desired_addr of
                   None \<Rightarrow>
                     ((fst st, snd st @ [NoTableWarning desired_addr (param_name row)]), None)
                 | Some i \<Rightarrow>
                     (let table_elem = children (fst st) ! i;
                          (t1, log1) = rename_title desired_addr (new_title row) table_elem;
                          ((t2, log2), err) = raise_max float_of_str desired_addr (new_max row) t1
                      in ((set_child (fst st) i t2, snd st @ log1 @ log2), err)))
            | _ \<Rightarrow> (st, Some AttributeError)))"

fun process_rows ::
  "(string \<Rightarrow> pyfloat option) \<Rightarrow> (string \<rightharpoonup> nat) \<Rightarrow> element \<times> event list \<Rightarrow> row list \<Rightarrow>
     (element \<times> event list) \<times> error option" where
  "process_rows float_of_str tables_by_addr st [] = (st, None)"
| "process_rows float_of_str tables_by_addr st (row # rows) =
     (case process_row float_of_str tables_by_addr st row of
        (st', Some e) \<Rightarrow> (st', Some e)
      | (st', None) \<Rightarrow> process_rows float_of_str tables_by_addr st' rows)"

definition write_tree :: "(element \<times> event list) \<times> error option \<Rightarrow> result" where
  "write_tree r =
     (case r of
        ((root, log), Some e) \<Rightarrow> \<lparr>written = None, printed = log, raised = Some e\<rparr>
      | ((root, log), None) \<Rightarrow>
          if serializable root
          then \<lparr>written = Some root, printed = log @ [WroteOutput], raised = None\<rparr>
          else \<lparr>written = None, printed = log, raised = Some TypeError\<rparr>)"

definition update_xdf_with_spreadsheet ::
  "(string \<Rightarrow> pyfloat option) \<Rightarrow> element \<Rightarrow> row list \<Rightarrow> result" where
  "update_xdf_with_spreadsheet float_of_str root spreadsheet_data =
     write_tree (process_rows float_of_str (build_index root) (root, []) spreadsheet_data)"

section \<open>xdf-freedom.py\<close>

text \<open>
  \<open>prompt_user_for_menu_updates\<close> on the four lines the user types: each is stripped,
  and an empty answer stands for the default of its menu.
\<close>

definition answer :: "string \<Rightarrow> string \<Rightarrow> string" where
  "answer line dflt = (if strip line = [] then dflt else strip line)"

definition prompt_user_for_menu_updates ::
  "string \<Rightarrow> string \<Rightarrow> string \<Rightarrow> string \<Rightarrow> (string \<rightharpoonup> string)" where
  "prompt_user_for_menu_updates boost fuel ign limits =
     [''Boost Control'' \<mapsto> answer boost ''RACE: Maximum Boost Control'',
      ''Fuel'' \<mapsto> answer fuel ''RACE: Fuel & AFR'',
      ''Ignition'' \<mapsto> answer ign ''RACE: Spark & Timing'',
      ''Limits'' \<mapsto> answer limits ''RACE: Safety Limits'']"

subsection \<open>The category-rename step\<close>

text \<open>\<open>cat.get('name', '')\<close>\<close>

definition cat_name :: "element \<Rightarrow> string" where
  "cat_name cat = (case get_attr cat ''name'' of None \<Rightarrow> [] | Some n \<Rightarrow> n)"

definition rename_category :: "(string \<rightharpoonup> string) \<Rightarrow> element \<Rightarrow> element \<times> event list" where
  "rename_category rename_map cat =
     (let old_name = cat_name cat in
      case rename_map old_name of
        None \<Rightarrow> (cat, [])
      | Some new_name \<Rightarrow> (set_attr cat ''name'' new_name, [RenamedCategory old_name new_name]))"

fun rename_categories ::
  "(string \<rightharpoonup> string) \<Rightarrow> element list \<Rightarrow> element list \<times> event list" where
  "rename_categories rename_map [] = ([], [])"
| "rename_categories rename_map (c # cs) =
     (let (c', log1) = (if has_tag ''CATEGORY'' c then rename_category rename_map c else (c, []));
          (cs', log2) = rename_categories rename_map cs
      in (c' # cs', log1 @ log2))"

definition rename_step :: "(string \<rightharpoonup> string) \<Rightarrow> element \<Rightarrow> element \<times> event list" where
  "rename_step rename_map root =
     (case find_child (has_tag ''XDFHEADER'') root of
        None \<Rightarrow> (root, [])
      | Some h \<Rightarrow>
          (let xdf_header = children root ! h;
               (cs, log) = rename_categories rename_map (children xdf_header)
           in (set_child root h (set_children xdf_header cs), log)))"

subsection \<open>The title step\<close>

text \<open>
  \<open>old_title and "Ignition" in old_title\<close>: a false text skips the table, and a true
  text that is not a str raises TypeError at the membership test.
\<close>

definition prefix_title :: "element \<Rightarrow> (element \<times> event list) \<times> error option" where
  "prefix_title table =
     (case find_child (has_tag ''title'') table of
        None \<Rightarrow> ((table, []), None)
      | Some j \<Rightarrow>
          (let title_elem = children table ! j; old_title = text_of title_elem in
           if \<not> truthy old_title then ((table, []), None)
           else (case old_title of
                   PStr s \<Rightarrow>
                     if contains ''Ignition'' s then
                       (let prefixed = ''RACE HIGH PERF '' @ s
                        in ((set_child table j (set_text title_elem (PStr prefixed)),
                             [RenamedTableTitle s prefixed]), None))
                     else ((table, []), None)
                 | _ \<Rightarrow> ((table, []), Some TypeError))))"

fun prefix_titles :: "element list \<Rightarrow> (element list \<times> event list) \<times> error option" where
  "prefix_titles [] = (([], []), None)"
| "prefix_titles (t # ts) =
     (if has_tag ''XDFTABLE'' t then
        (case prefix_title t of
           ((t', log1), Some e) \<Rightarrow> ((t' # ts, log1), Some e)
         | ((t', log1), None) \<Rightarrow>
             (case prefix_titles ts of ((ts', log2), err) \<Rightarrow> ((t' # ts', log1 @ log2), err)))
      else (case prefix_titles ts of ((ts', log2), err) \<Rightarrow> ((t # ts', log2), err)))"

definition title_step :: "element \<times> event list \<Rightarrow> (element \<times> event list) \<times> error option" where
  "title_step st =
     (case prefix_titles (children (fst st)) of
        ((cs, log), err) \<Rightarrow> ((set_children (fst st) cs, snd st @ log), err))"

definition update_xdf_for_high_performance :: "(string \<rightharpoonup> string) \<Rightarrow> element \<Rightarrow> result" where
  "update_xdf_for_high_performance rename_map root =
     write_tree (title_step (rename_step rename_map root))"

section \<open>Reading a table, and a sample document\<close>

text \<open>
  The text of the title of a table and of the \<open>max\<close> of its z axis, found the way both
  scripts find them (first \<open>title\<close> child; first \<open>max\<close> child of the first z axis).
\<close>

definition title_text :: "element \<Rightarrow> pyval option" where
  "title_text table =
     (case find_child (has_tag ''title'') table of
        None \<Rightarrow> None
      | Some j \<Rightarrow> Some (text_of (children table ! j)))"

definition max_text :: "element \<Rightarrow> pyval option" where
  "max_text table =
     (case find_child is_z_axis table of
        None \<Rightarrow> None
      | Some j \<Rightarrow>
          (case find_child (has_tag ''max'') (children table ! j) of
             None \<Rightarrow> None
           | Some k \<Rightarrow> Some (text_of (children (children table ! j) ! k))))"

definition example_table :: "string \<Rightarrow> string \<Rightarrow> string \<Rightarrow> element" where
  "example_table title address old_max =
     Element ''XDFTABLE'' [(''uniqueid'', ''0x1'')] PNone
       [Element ''title'' [] (PStr title) [],
        Element ''XDFAXIS'' [(''id'', ''x'')] PNone [],
        Element ''XDFAXIS'' [(''id'', ''z'')] PNone
          [Element ''EMBEDDEDDATA'' [(''mmedaddress'', address)] PNone [],
           Element ''max'' [] (PStr old_max) []]]"

definition example_header :: element where
  "example_header =
     Element ''XDFHEADER'' [] PNone
       [Element ''CATEGORY'' [(''index'', ''0x0''), (''name'', ''Fuel'')] PNone [],
        Element ''CATEGORY'' [(''index'', ''0x1''), (''name'', ''Ignition'')] PNone []]"

definition example_xdf :: element where
  "example_xdf =
     Element ''XDFFORMAT'' [(''version'', ''1.60'')] PNone
       [example_header, example_table ''Ignition Timing Base'' ''0x4076A'' ''255.000000'']"

definition duplicate_xdf :: element where
  "duplicate_xdf =
     Element ''XDFFORMAT'' [(''version'', ''1.60'')] PNone
       [example_header,
        example_table ''Boost Ceiling'' ''0x4076a'' ''255.000000'',
        example_table ''Boost Ceiling (copy)'' ''0x4076A'' ''255.000000'']"

definition spaced_duplicate_xdf :: element where
  "spaced_duplicate_xdf =
     Element ''XDFFORMAT'' [(''version'', ''1.60'')] PNone
       [example_header,
        example_table ''Boost Ceiling'' ''0x4076A'' ''255.000000'',
        example_table ''Boost Ceiling (copy)'' ''0x4076A '' ''255.000000'']"

definition blank_max_xdf :: element where
  "blank_max_xdf =
     Element ''XDFFORMAT'' [(''version'', ''1.60'')] PNone
       [example_header,
        Element ''XDFTABLE'' [(''uniqueid'', ''0x3'')] PNone
          [Element ''title'' [] (PStr ''Boost Ceiling'') [],
           Element ''XDFAXIS'' [(''id'', ''z'')] PNone
             [Element ''EMBEDDEDDATA'' [(''mmedaddress'', ''0x4076A'')] PNone [],
              Element ''max'' [] PNone []]]]"

definition padded_xdf :: element where
  "padded_xdf =
     Element ''XDFFORMAT'' [(''version'', ''1.60'')] PNone
       [example_header, example_table ''Boost Ceiling'' ''0x4076A '' ''255.000000'']"

text \<open>
  What one turn of each loop of \<open>update_xdf_for_high_performance\<close> leaves in place of
  the element it visits: a child of the header after the category loop, a child of the
  root after the title loop.
\<close>

definition renamed :: "(string \<rightharpoonup> string) \<Rightarrow> element \<Rightarrow> element" where
  "renamed rename_map c =
     (if has_tag ''CATEGORY'' c then fst (rename_category rename_map c) else c)"

definition retitled :: "element \<Rightarrow> element" where
  "retitled t = (if has_tag ''XDFTABLE'' t then fst (fst (prefix_title t)) else t)"

definition table_category_xdf :: element where
  "table_category_xdf =
     Element ''XDFFORMAT'' [(''version'', ''1.60'')] PNone
       [example_header,
        Element ''XDFTABLE'' [(''uniqueid'', ''0x2'')] PNone
          [Element ''title'' [] (PStr ''Fuel Scalar'') [],
           Element ''CATEGORY'' [(''name'', ''Fuel'')] PNone []]]"

section \<open>Basic facts\<close>

lemma first_pos_Some:
  "first_pos P xs = Some i \<Longrightarrow> i < length xs \<and> P (xs ! i) \<and> (\<forall>k<i. \<not> P (xs ! k))"
proof (induction xs arbitrary: i)
  case Nil
  then show ?case by simp
next
  case (Cons x xs)
  show ?case
  proof (cases "P x")
    case True
    with Cons.prems show ?thesis by simp
  next
    case False
    with Cons.prems obtain j where j: "first_pos P xs = Some j" "i = Suc j" by auto
    from Cons.IH [OF j(1)] False j(2) show ?thesis
      by (auto simp: nth_Cons split: nat.splits)
  qed
qed

lemma first_pos_update:
  "P y = P (xs ! p) \<Longrightarrow> first_pos P (xs[p := y]) = first_pos P xs"
proof (induction xs arbitrary: p)
  case Nil
  then show ?case by simp
next
  case (Cons x xs)
  then show ?case by (cases p) auto
qed

lemma sel_set_child [simp]:
  "tag (set_child e i c) = tag e" "attrib (set_child e i c) = attrib e"
  "text_of (set_child e i c) = text_of e" "children (set_child e i c) = (children e)[i := c]"
  by (simp_all add: set_child_def)

lemma sel_set_text [simp]:
  "tag (set_text e v) = tag e" "attrib (set_text e v) = attrib e"
  "text_of (set_text e v) = v" "children (set_text e v) = children e"
  by (simp_all add: set_text_def)

lemma sel_set_children [simp]:
  "tag (set_children e cs) = tag e" "attrib (set_children e cs) = attrib e"
  "text_of (set_children e cs) = text_of e" "children (set_children e cs) = cs"
  by (simp_all add: set_children_def)

lemma sel_set_attr [simp]:
  "tag (set_attr e k v) = tag e" "text_of (set_attr e k v) = text_of e"
  "children (set_attr e k v) = children e"
  by (simp_all add: set_attr_def)

lemma get_attr_set_attr:
  "get_attr (set_attr e k v) k' = (if k' = k then Some v else get_attr e k')"
  by (simp add: get_attr_def set_attr_def update_conv)

lemmas tree_defs =
  find_child_def has_tag_def is_z_axis_def get_attr_def set_child_def set_text_def
  set_children_def set_attr_def

lemmas string_defs = upper_def upper_char_def strip_def is_space_def

lemmas index_defs = build_index_def tables_of_def index_key_def z_address_def

lemmas example_defs =
  example_xdf_def duplicate_xdf_def spaced_duplicate_xdf_def padded_xdf_def blank_max_xdf_def
  table_category_xdf_def
  example_header_def
  example_table_def

lemma example_index: "build_index example_xdf = [''0X4076A'' \<mapsto> 1]"
  by (simp add: example_defs index_defs tree_defs string_defs enumerate_eq_zip)

lemma first_pos_cong:
  "length xs = length ys \<Longrightarrow> (\<And>p. p < length xs \<Longrightarrow> P (xs ! p) = P (ys ! p)) \<Longrightarrow>
     first_pos P xs = first_pos P ys"
proof (induction xs ys rule: list_induct2)
  case Nil
  then show ?case by simp
next
  case (Cons x xs y ys)
  have h: "P x = P y" using Cons.prems [of 0] by simp
  have t: "first_pos P xs = first_pos P ys"
  proof (rule Cons.IH)
    fix p assume "p < length xs"
    then show "P (xs ! p) = P (ys ! p)" using Cons.prems [of "Suc p"] by simp
  qed
  show ?case using h t by simp
qed

lemma rename_title_skip: "\<not> truthy v \<Longrightarrow> rename_title addr v t = (t, [])"
  by (simp add: rename_title_def)

lemma rename_title_max: "max_text (fst (rename_title addr v t)) = max_text t"
proof (cases "truthy v \<and> find_child (has_tag ''title'') t \<noteq> None")
  case False
  then show ?thesis by (auto simp: rename_title_def)
next
  case True
  then obtain j where j: "find_child (has_tag ''title'') t = Some j" by auto
  let ?c = "set_text (children t ! j) v"
  have r: "fst (rename_title addr v t) = set_child t j ?c"
    using True j by (simp add: rename_title_def Let_def)
  have jt: "j < length (children t)" "has_tag ''title'' (children t ! j)"
    using first_pos_Some [of "has_tag ''title''" "children t" j] j by (simp_all add: find_child_def)
  have z: "find_child is_z_axis (set_child t j ?c) = find_child is_z_axis t"
    unfolding find_child_def sel_set_child
    by (rule first_pos_update) (simp add: is_z_axis_def get_attr_def)
  show ?thesis
  proof (cases "find_child is_z_axis t")
    case None
    then show ?thesis using z r by (simp add: max_text_def)
  next
    case (Some k)
    then have "is_z_axis (children t ! k)"
      using first_pos_Some [of is_z_axis "children t" k] by (simp add: find_child_def)
    then have "j \<noteq> k" using jt(2) by (auto simp: is_z_axis_def has_tag_def)
    then show ?thesis using z r Some by (simp add: max_text_def split: option.splits)
  qed
qed

lemma max_text_Some:
  assumes "max_text t = Some old"
  obtains j k where "find_child is_z_axis t = Some j"
    "find_child (has_tag ''max'') (children t ! j) = Some k"
    "old = text_of (children (children t ! j) ! k)"
    "j < length (children t)" "k < length (children (children t ! j))"
    "is_z_axis (children t ! j)"
proof -
  from assms obtain j k where jk: "find_child is_z_axis t = Some j"
    "find_child (has_tag ''max'') (children t ! j) = Some k"
    "old = text_of (children (children t ! j) ! k)"
    by (auto simp: max_text_def split: option.splits)
  have "j < length (children t)" "is_z_axis (children t ! j)"
    using first_pos_Some [of is_z_axis "children t" j] jk(1) by (simp_all add: find_child_def)
  moreover have "k < length (children (children t ! j))"
    using first_pos_Some [of "has_tag ''max''" "children (children t ! j)" k] jk(2)
    by (simp add: find_child_def)
  ultimately show ?thesis using jk that by blast
qed

lemma max_text_written:
  assumes "find_child is_z_axis t = Some j"
    and "find_child (has_tag ''max'') (children t ! j) = Some k"
  shows "max_text (set_child t j (set_child (children t ! j) k
           (set_text (children (children t ! j) ! k) v))) = Some v"
proof -
  let ?z = "children t ! j"
  let ?z' = "set_child ?z k (set_text (children ?z ! k) v)"
  have j: "j < length (children t)"
    using first_pos_Some [of is_z_axis "children t" j] assms(1) by (simp add: find_child_def)
  have k: "k < length (children ?z)"
    using first_pos_Some [of "has_tag ''max''" "children ?z" k] assms(2)
    by (simp add: find_child_def)
  have a: "find_child is_z_axis (set_child t j ?z') = Some j"
    unfolding find_child_def sel_set_child using assms(1)
    by (subst first_pos_update) (simp_all add: is_z_axis_def get_attr_def find_child_def)
  have b: "find_child (has_tag ''max'') ?z' = Some k"
    unfolding find_child_def sel_set_child using assms(2)
    by (subst first_pos_update) (simp_all add: has_tag_def find_child_def)
  show ?thesis using a b j k by (simp add: max_text_def)
qed

lemma raise_max_writes:
  assumes "max_text t = Some old" and "format_2f v = Inr s"
  shows "\<exists>t'. raise_max f addr v t = ((t', [UpdatedMax (old_max_of f old) v addr]), None) \<and>
           max_text t' = Some (PStr s)"
proof -
  from assms(1) obtain j k where jk: "find_child is_z_axis t = Some j"
    "find_child (has_tag ''max'') (children t ! j) = Some k"
    "old = text_of (children (children t ! j) ! k)"
    by (rule max_text_Some)
  have v: "v \<noteq> PNone" using assms(2) by auto
  show ?thesis
    using jk v assms(2) max_text_written [OF jk(1) jk(2), of "PStr s"]
    by (simp add: raise_max_def Let_def)
qed

lemma raise_max_raises:
  assumes "max_text t = Some old" and "format_2f v = Inl e" and "v \<noteq> PNone"
  shows "raise_max f addr v t = ((t, []), Some e)"
proof -
  from assms(1) obtain j k where jk: "find_child is_z_axis t = Some j"
    "find_child (has_tag ''max'') (children t ! j) = Some k"
    by (rule max_text_Some)
  show ?thesis using jk assms(2,3) by (simp add: raise_max_def Let_def)
qed

lemma raise_max_title: "title_text (fst (fst (raise_max f addr v t))) = title_text t"
proof (cases "\<exists>j k s. v \<noteq> PNone \<and> find_child is_z_axis t = Some j \<and>
    find_child (has_tag ''max'') (children t ! j) = Some k \<and> format_2f v = Inr s")
  case False
  then show ?thesis
    by (auto simp: raise_max_def Let_def split: option.splits sum.splits)
next
  case True
  then obtain j k s where jk: "v \<noteq> PNone" "find_child is_z_axis t = Some j"
    "find_child (has_tag ''max'') (children t ! j) = Some k" "format_2f v = Inr s" by blast
  let ?z' = "set_child (children t ! j) k (set_text (children (children t ! j) ! k) (PStr s))"
  have r: "fst (fst (raise_max f addr v t)) = set_child t j ?z'"
    using jk by (simp add: raise_max_def Let_def)
  have jz: "j < length (children t)" "is_z_axis (children t ! j)"
    using first_pos_Some [of is_z_axis "children t" j] jk(2) by (simp_all add: find_child_def)
  have f: "find_child (has_tag ''title'') (set_child t j ?z') = find_child (has_tag ''title'') t"
    unfolding find_child_def sel_set_child
    by (rule first_pos_update) (simp add: has_tag_def)
  show ?thesis
  proof (cases "find_child (has_tag ''title'') t")
    case None
    then show ?thesis using f r by (simp add: title_text_def)
  next
    case (Some p)
    then have "has_tag ''title'' (children t ! p)"
      using first_pos_Some [of "has_tag ''title''" "children t" p] by (simp add: find_child_def)
    then have "j \<noteq> p" using jz(2) by (auto simp: is_z_axis_def has_tag_def)
    then show ?thesis using f r Some by (simp add: title_text_def split: option.splits)
  qed
qed

lemma process_row_resolved:
  assumes "xdf_address row = PStr a" and "a \<noteq> []" and "ix (upper (strip a)) = Some j"
  shows "process_row f ix (root, log) row =
     (let r = rename_title (upper (strip a)) (new_title row) (children root ! j);
          m = raise_max f (upper (strip a)) (new_max row) (fst r)
      in ((set_child root j (fst (fst m)), log @ snd r @ snd (fst m)), snd m))"
  using assms by (simp add: process_row_def Let_def split: prod.splits)

lemma index_tables_append:
  "index_tables (xs @ ys) ix = index_tables ys (index_tables xs ix)"
  by (induction xs arbitrary: ix) auto

lemma index_tables_miss:
  "\<forall>p \<in> set ts. index_key (snd p) \<noteq> Some key \<Longrightarrow> index_tables ts ix key = ix key"
proof (induction ts arbitrary: ix)
  case Nil
  then show ?case by simp
next
  case (Cons p ts)
  obtain i t where p: "p = (i, t)" by (cases p)
  have "index_key t \<noteq> Some key" using Cons.prems p by simp
  moreover have "index_tables ts ix' key = ix' key" for ix'
    using Cons.IH [of ix'] Cons.prems by simp
  ultimately show ?case using p by (auto split: option.splits)
qed

lemma index_tables_sound:
  "index_tables ts ix key = Some j \<Longrightarrow>
     ix key = Some j \<or> (\<exists>t. (j, t) \<in> set ts \<and> index_key t = Some key)"
proof (induction ts arbitrary: ix)
  case Nil
  then show ?case by simp
next
  case (Cons p ts)
  obtain i t where p: "p = (i, t)" by (cases p)
  let ?ix = "case index_key t of None \<Rightarrow> ix | Some address \<Rightarrow> ix(address \<mapsto> i)"
  from Cons.prems p have "index_tables ts ?ix key = Some j" by simp
  from Cons.IH [OF this] show ?case using p
    by (auto split: option.splits if_splits)
qed

lemma tables_of_set:
  "(i, t) \<in> set (tables_of root) \<longleftrightarrow>
     i < length (children root) \<and> t = children root ! i \<and> has_tag ''XDFTABLE'' t"
  by (auto simp: tables_of_def in_set_enumerate_eq)

lemma tables_of_split:
  assumes "j < length (children root)" and "has_tag ''XDFTABLE'' (children root ! j)"
  shows "tables_of root =
     filter (\<lambda>(i, e). has_tag ''XDFTABLE'' e) (enumerate 0 (take j (children root))) @
     (j, children root ! j) #
     filter (\<lambda>(i, e). has_tag ''XDFTABLE'' e) (enumerate (Suc j) (drop (Suc j) (children root)))"
proof -
  have "enumerate 0 (children root) =
      enumerate 0 (take j (children root) @ children root ! j # drop (Suc j) (children root))"
    using assms(1) by (simp add: id_take_nth_drop [symmetric])
  also have "\<dots> = enumerate 0 (take j (children root)) @
      (j, children root ! j) # enumerate (Suc j) (drop (Suc j) (children root))"
    using assms(1) by (simp add: enumerate_append_eq min_def)
  finally show ?thesis using assms(2) by (simp add: tables_of_def)
qed

lemma build_index_last:
  assumes j: "j < length (children root)" "has_tag ''XDFTABLE'' (children root ! j)"
    and key: "index_key (children root ! j) = Some key"
    and last: "\<And>k. j < k \<Longrightarrow> k < length (children root) \<Longrightarrow>
       has_tag ''XDFTABLE'' (children root ! k) \<Longrightarrow> index_key (children root ! k) \<noteq> Some key"
  shows "build_index root key = Some j"
proof -
  let ?P = "\<lambda>(i, e). has_tag ''XDFTABLE'' e"
  let ?after = "filter ?P (enumerate (Suc j) (drop (Suc j) (children root)))"
  have miss: "\<forall>p \<in> set ?after. index_key (snd p) \<noteq> Some key"
  proof
    fix p assume "p \<in> set ?after"
    then have "Suc j \<le> fst p" "fst p < length (children root)"
      "snd p = children root ! fst p" "has_tag ''XDFTABLE'' (snd p)"
      by (auto simp: in_set_enumerate_eq)
    then show "index_key (snd p) \<noteq> Some key" using last [of "fst p"] by simp
  qed
  show ?thesis
    unfolding build_index_def tables_of_split [OF j] index_tables_append
    using key by (simp add: index_tables_miss [OF miss])
qed

lemma build_index_sound:
  assumes "build_index root key = Some j"
  shows "j < length (children root) \<and> has_tag ''XDFTABLE'' (children root ! j) \<and>
         index_key (children root ! j) = Some key"
  using index_tables_sound [of "tables_of root" Map.empty key j] assms
  by (auto simp: build_index_def tables_of_set)

lemma excess_bits_small: "a < 2 ^ 53 \<Longrightarrow> excess_bits a = 0"
  by (subst excess_bits.simps) simp

lemma round_div_one: "round_div a (Suc 0) = a"
  by (simp add: round_div_def)

lemma float_of_int_small:
  assumes "\<bar>n\<bar> < 2 ^ 53"
  shows "float_of_int n = Inr (FFin (n < 0) (nat \<bar>n\<bar>) 0)"
proof -
  have a: "nat \<bar>n\<bar> < 2 ^ 53" using assms by (simp add: nat_less_iff)
  have b: "excess_bits (nat \<bar>n\<bar>) = 0" using a by (rule excess_bits_small)
  have c: "(2::nat) ^ 53 < 2 ^ 1024" by simp
  have d: "\<not> (2::nat) ^ 1024 \<le> nat \<bar>n\<bar>" using a c by linarith
  show ?thesis unfolding float_of_int_def Let_def b using d by (simp add: round_div_one)
qed

lemma format_2f_int:
  "\<bar>n\<bar> < 2 ^ 53 \<Longrightarrow> format_2f (PInt n) = Inr (fixed2 (n < 0) (100 * nat \<bar>n\<bar>))"
  by (simp add: float_of_int_small hundredths_def)

lemmas format_defs = fixed2_def hundredths_def round_div_def dec.simps digit_def

lemma format_300: "format_2f (PInt 300) = Inr ''300.00''"
  by (simp add: float_of_int_small format_defs)

lemma format_0: "format_2f (PInt 0) = Inr ''0.00''"
  by (simp add: float_of_int_small format_defs)

lemma process_row_frame:
  assumes "\<And>key. ix key \<noteq> Some p"
  shows "children (fst (fst (process_row f ix st row))) ! p = children (fst st) ! p"
proof (cases "\<exists>a. xdf_address row = PStr a \<and> a \<noteq> [] \<and> ix (upper (strip a)) \<noteq> None")
  case True
  then obtain a j where a: "xdf_address row = PStr a" "a \<noteq> []" "ix (upper (strip a)) = Some j"
    by auto
  have "j \<noteq> p" using assms [of "upper (strip a)"] a(3) by auto
  then show ?thesis
    using process_row_resolved [where ix = ix and f = f and root = "fst st" and log = "snd st",
        OF a]
    by (simp add: Let_def)
next
  case False
  then show ?thesis
    by (cases "xdf_address row") (auto simp: process_row_def Let_def)
qed

lemma process_rows_frame:
  assumes "\<And>key. ix key \<noteq> Some p"
  shows "children (fst (fst (process_rows f ix st rows))) ! p = children (fst st) ! p"
proof (induction rows arbitrary: st)
  case Nil
  then show ?case by simp
next
  case (Cons row rows)
  obtain st' err where r: "process_row f ix st row = (st', err)" by (cases "process_row f ix st row")
  have s: "children (fst st') ! p = children (fst st) ! p"
    using process_row_frame [of ix p f st row, OF assms] r by simp
  show ?case
  proof (cases err)
    case None
    then show ?thesis using r s Cons.IH [of st'] by simp
  next
    case (Some e)
    then show ?thesis using r s by simp
  qed
qed


lemma process_row_bad_bound:
  assumes "xdf_address row = PStr a" and "a \<noteq> []"
    and "ix (upper (strip a)) = Some j"
    and "max_text (children root ! j) = Some old"
    and "format_2f (new_max row) = Inl e" and "new_max row \<noteq> PNone"
  shows "process_row f ix (root, log) row =
     (let r = rename_title (upper (strip a)) (new_title row) (children root ! j)
      in ((set_child root j (fst r), log @ snd r), Some e))"
proof -
  let ?k = "upper (strip a)"
  let ?r = "rename_title ?k (new_title row) (children root ! j)"
  have m: "max_text (fst ?r) = Some old" using assms(4) by (simp add: rename_title_max)
  have "raise_max f ?k (new_max row) (fst ?r) = ((fst ?r, []), Some e)"
    by (rule raise_max_raises [OF m assms(5,6)])
  then show ?thesis
    using process_row_resolved [where ix = ix and f = f and root = root and log = log,
        OF assms(1,2,3)]
    by (simp add: Let_def)
qed

lemma padded_index: "build_index padded_xdf = [''0X4076A '' \<mapsto> 1]"
  by (simp add: example_defs index_defs tree_defs string_defs enumerate_eq_zip)

section \<open>Records that do not resolve\<close>

text \<open>
  C1, as the code has it. A record whose target key is a non-empty string that, trimmed
  and uppercased, is not in the index leaves the tree as it is and prints exactly one
  warning, which carries the normalised key and the parameter name of the record. A
  record whose target key is empty or \<open>None\<close> (any false value) is skipped before the
  lookup: the tree is unchanged and nothing is printed for it.
\<close>

theorem unresolved_record:
  "(xdf_address row = PStr a \<and> a \<noteq> [] \<and> tables_by_addr (upper (strip a)) = None \<longrightarrow>
      process_row float_of_str tables_by_addr (root, log) row =
        ((root, log @ [NoTableWarning (upper (strip a)) (param_name row)]), None)) \<and>
   (\<not> truthy (xdf_address row) \<longrightarrow>
      process_row float_of_str tables_by_addr (root, log) row = ((root, log), None))"
  by (simp add: process_row_def)

theorem unresolved_record_witness:
  "process_row (\<lambda>s. None) (build_index example_xdf) (example_xdf, [])
      \<lparr>param_name = PStr ''Boost Ceiling'', xdf_address = PStr '' 0x5000 '',
       new_max = PInt 300, new_title = PNone\<rparr> =
     ((example_xdf, [NoTableWarning ''0X5000'' (PStr ''Boost Ceiling'')]), None) \<and>
   process_row (\<lambda>s. None) (build_index example_xdf) (example_xdf, [])
      \<lparr>param_name = PStr ''Boost Ceiling'', xdf_address = PNone,
       new_max = PInt 300, new_title = PNone\<rparr> =
     ((example_xdf, []), None)"
  using
    unresolved_record [where row = "\<lparr>param_name = PStr ''Boost Ceiling'',
        xdf_address = PStr '' 0x5000 '', new_max = PInt 300, new_title = PNone\<rparr>"
      and a = "'' 0x5000 ''" and tables_by_addr = "build_index example_xdf"
      and float_of_str = "\<lambda>s. None" and root = example_xdf and log = "[]"]
    unresolved_record [where row = "\<lparr>param_name = PStr ''Boost Ceiling'',
        xdf_address = PNone, new_max = PInt 300, new_title = PNone\<rparr>"
      and tables_by_addr = "build_index example_xdf"
      and float_of_str = "\<lambda>s. None" and root = example_xdf and log = "[]"]
  by (simp add: example_index string_defs)

text \<open>
  The claim as written fails for the records it names last: with a target key that is
  \<open>None\<close> or the empty string the run prints its final message and no warning.
\<close>

theorem empty_key_no_warning:
  "printed (update_xdf_with_spreadsheet (\<lambda>s. None) example_xdf
      [\<lparr>param_name = PStr ''Boost Ceiling'', xdf_address = PNone,
        new_max = PInt 300, new_title = PNone\<rparr>]) = [WroteOutput] \<and>
   printed (update_xdf_with_spreadsheet (\<lambda>s. None) example_xdf
      [\<lparr>param_name = PStr ''Boost Ceiling'', xdf_address = PStr '''',
        new_max = PInt 300, new_title = PNone\<rparr>]) = [WroteOutput]"
  by (simp add: update_xdf_with_spreadsheet_def process_row_def write_tree_def example_defs)

section \<open>Records that resolve\<close>

text \<open>
  C3. Take a document with a table (child \<open>j\<close> of the root) whose z axis carries the
  embedded-data address \<open>0x4076A\<close> and a \<open>max\<close> element, no later table having the
  same uppercased address, and a record with target address \<open>0x4076a\<close> and new bound
  300. After the edit pass over that record no exception is pending and the text of the
  \<open>max\<close> element of the z axis of that table is \<open>300.00\<close>.
\<close>

theorem bound_set_case_insensitively:
  assumes "j < length (children root)" and "has_tag ''XDFTABLE'' (children root ! j)"
    and "z_address (children root ! j) = Some ''0x4076A''"
    and "max_text (children root ! j) = Some old"
    and "\<forall>k. j < k \<and> k < length (children root) \<and> has_tag ''XDFTABLE'' (children root ! k) \<longrightarrow>
           index_key (children root ! k) \<noteq> Some ''0X4076A''"
    and "xdf_address row = PStr ''0x4076a''" and "new_max row = PInt 300"
  shows "\<exists>root' log. process_rows float_of_str (build_index root) (root, []) [row] =
            ((root', log), None) \<and>
          max_text (children root' ! j) = Some (PStr ''300.00'')"
proof -
  have key: "index_key (children root ! j) = Some ''0X4076A''"
    using assms(3) by (simp add: index_key_def string_defs)
  have ix: "build_index root (upper (strip ''0x4076a'')) = Some j"
    using build_index_last [OF assms(1,2) key] assms(5) by (simp add: string_defs)
  let ?r = "rename_title (upper (strip ''0x4076a'')) (new_title row) (children root ! j)"
  have "max_text (fst ?r) = Some old"
    using assms(4) by (simp add: rename_title_max)
  from raise_max_writes [OF this format_300, of float_of_str "upper (strip ''0x4076a'')"]
  obtain t' where t': "raise_max float_of_str (upper (strip ''0x4076a'')) (PInt 300) (fst ?r) =
      ((t', [UpdatedMax (old_max_of float_of_str old) (PInt 300) (upper (strip ''0x4076a''))]), None)"
    "max_text t' = Some (PStr ''300.00'')" by blast
  have "process_row float_of_str (build_index root) (root, []) row =
      ((set_child root j t', snd ?r @ [UpdatedMax (old_max_of float_of_str old) (PInt 300)
         (upper (strip ''0x4076a''))]), None)"
    using process_row_resolved [where ix = "build_index root" and f = float_of_str
        and root = root and log = "[]", OF assms(6) _ ix] t' assms(7)
    by (simp add: Let_def)
  then show ?thesis using t'(2) assms(1) by simp
qed

theorem bound_set_case_insensitively_witness:
  "\<exists>root' log. process_rows (\<lambda>s. None) (build_index example_xdf) (example_xdf, [])
       [\<lparr>param_name = PStr ''Boost Ceiling'', xdf_address = PStr ''0x4076a'',
         new_max = PInt 300, new_title = PNone\<rparr>] = ((root', log), None) \<and>
     max_text (children root' ! 1) = Some (PStr ''300.00'')"
  by (rule bound_set_case_insensitively [where old = "PStr ''255.000000''"])
    (simp_all add: example_defs z_address_def index_key_def max_text_def tree_defs string_defs)




text \<open>
  C10. For a record that resolves to the table at child \<open>j\<close> of the root: a new bound
  that is the number 0 passes the \<open>is not None\<close> test and is written, the text of the
  \<open>max\<close> of the z axis becoming \<open>0.00\<close>; a new title that is the empty string fails
  the truth test, and the text of the title of the table stays what it was.
\<close>

theorem zero_bound_applied_empty_title_skipped:
  assumes "xdf_address row = PStr a" and "a \<noteq> []"
    and "tables_by_addr (upper (strip a)) = Some j" and "j < length (children root)"
  shows "(new_max row = PInt 0 \<and> max_text (children root ! j) = Some old \<longrightarrow>
            (\<exists>root' log'. process_row float_of_str tables_by_addr (root, log) row =
                 ((root', log'), None) \<and>
               max_text (children root' ! j) = Some (PStr ''0.00''))) \<and>
         (new_title row = PStr '''' \<longrightarrow>
            title_text (children (fst (fst (process_row float_of_str tables_by_addr
               (root, log) row))) ! j) = title_text (children root ! j))"
proof -
  let ?k = "upper (strip a)"
  let ?r = "rename_title ?k (new_title row) (children root ! j)"
  have p: "process_row float_of_str tables_by_addr (root, log) row =
     (let m = raise_max float_of_str ?k (new_max row) (fst ?r)
      in ((set_child root j (fst (fst m)), log @ snd ?r @ snd (fst m)), snd m))"
    using process_row_resolved [where ix = tables_by_addr and f = float_of_str and root = root
        and log = log, OF assms(1,2,3)]
    by (simp add: Let_def)
  have bound: "\<exists>root' log'. process_row float_of_str tables_by_addr (root, log) row =
        ((root', log'), None) \<and> max_text (children root' ! j) = Some (PStr ''0.00'')"
    if "new_max row = PInt 0" "max_text (children root ! j) = Some old"
  proof -
    have "max_text (fst ?r) = Some old" using that(2) by (simp add: rename_title_max)
    from raise_max_writes [OF this format_0, of float_of_str ?k]
    obtain t' where t': "raise_max float_of_str ?k (PInt 0) (fst ?r) =
        ((t', [UpdatedMax (old_max_of float_of_str old) (PInt 0) ?k]), None)"
      "max_text t' = Some (PStr ''0.00'')" by blast
    show ?thesis using p t' that(1) assms(4) by (simp add: Let_def)
  qed
  have title: "title_text (children (fst (fst (process_row float_of_str tables_by_addr
        (root, log) row))) ! j) = title_text (children root ! j)"
    if "new_title row = PStr ''''"
  proof -
    have "fst ?r = children root ! j" using that by (simp add: rename_title_skip)
    then show ?thesis
      using p assms(4) raise_max_title [of float_of_str ?k "new_max row" "children root ! j"]
      by (simp add: Let_def)
  qed
  show ?thesis using bound title by blast
qed

theorem zero_bound_applied_empty_title_skipped_witness:
  "(\<exists>root' log'. process_row (\<lambda>s. None) (build_index example_xdf) (example_xdf, [])
        \<lparr>param_name = PStr ''Timing'', xdf_address = PStr ''0x4076A'',
         new_max = PInt 0, new_title = PStr ''''\<rparr> = ((root', log'), None) \<and>
      max_text (children root' ! 1) = Some (PStr ''0.00'')) \<and>
   title_text (children (fst (fst (process_row (\<lambda>s. None) (build_index example_xdf)
        (example_xdf, [])
        \<lparr>param_name = PStr ''Timing'', xdf_address = PStr ''0x4076A'',
         new_max = PInt 0, new_title = PStr ''''\<rparr>))) ! 1) =
     Some (PStr ''Ignition Timing Base'')"
proof -
  let ?row = "\<lparr>param_name = PStr ''Timing'', xdf_address = PStr ''0x4076A'',
         new_max = PInt 0, new_title = PStr ''''\<rparr>"
  have m: "max_text (children example_xdf ! 1) = Some (PStr ''255.000000'')"
    by (simp add: example_defs max_text_def tree_defs)
  have t: "title_text (children example_xdf ! 1) = Some (PStr ''Ignition Timing Base'')"
    by (simp add: example_defs title_text_def tree_defs)
  have l: "1 < length (children example_xdf)"
    by (simp add: example_defs)
  have i: "build_index example_xdf (upper (strip ''0x4076A'')) = Some 1"
    by (simp add: example_index string_defs)
  have x: "xdf_address ?row = PStr ''0x4076A''" "''0x4076A'' \<noteq> []" by simp_all
  show ?thesis
    using zero_bound_applied_empty_title_skipped [where float_of_str = "\<lambda>s. None"
        and tables_by_addr = "build_index example_xdf" and root = example_xdf and log = "[]"
        and row = ?row and a = "''0x4076A''" and j = 1 and old = "PStr ''255.000000''",
        OF x i l] m t
    by simp
qed

text \<open>
  C4, as the code has it. When the new bound of a record is a string and the record
  resolves to a table with a \<open>max\<close> under its z axis, formatting the bound raises
  ValueError: the exception leaves the row with the text of \<open>max\<close> as it was, the rows
  after it are not processed, and nothing is written.
\<close>

theorem string_bound_aborts:
  assumes "xdf_address row = PStr a" and "a \<noteq> []"
    and "tables_by_addr (upper (strip a)) = Some j" and "j < length (children root)"
    and "max_text (children root ! j) = Some old"
    and "new_max row = PStr s"
  shows "snd (process_row float_of_str tables_by_addr (root, log) row) = Some ValueError \<and>
         max_text (children (fst (fst (process_row float_of_str tables_by_addr
            (root, log) row))) ! j) = Some old \<and>
         process_rows float_of_str tables_by_addr (root, log) (row # rest) =
           process_row float_of_str tables_by_addr (root, log) row \<and>
         written (write_tree (process_rows float_of_str tables_by_addr (root, log) (row # rest)))
           = None \<and>
         raised (write_tree (process_rows float_of_str tables_by_addr (root, log) (row # rest)))
           = Some ValueError"
proof -
  let ?r = "rename_title (upper (strip a)) (new_title row) (children root ! j)"
  have p: "process_row float_of_str tables_by_addr (root, log) row =
      ((set_child root j (fst ?r), log @ snd ?r), Some ValueError)"
    using process_row_bad_bound [where ix = tables_by_addr and f = float_of_str
        and root = root and log = log and e = ValueError, OF assms(1,2,3,5)] assms(6)
    by (simp add: Let_def)
  have m: "max_text (fst ?r) = Some old" using assms(5) by (simp add: rename_title_max)
  show ?thesis using p m assms(4) by (simp add: write_tree_def)
qed

theorem string_bound_aborts_witness:
  "raised (update_xdf_with_spreadsheet (\<lambda>s. None) example_xdf
     [\<lparr>param_name = PStr ''Boost Ceiling'', xdf_address = PStr ''0x4076A'',
       new_max = PStr ''300 psi'', new_title = PNone\<rparr>,
      \<lparr>param_name = PStr ''Other'', xdf_address = PStr ''0x5000'',
       new_max = PInt 1, new_title = PNone\<rparr>]) = Some ValueError"
proof -
  let ?row = "\<lparr>param_name = PStr ''Boost Ceiling'', xdf_address = PStr ''0x4076A'',
       new_max = PStr ''300 psi'', new_title = PNone\<rparr>"
  have m: "max_text (children example_xdf ! 1) = Some (PStr ''255.000000'')"
    by (simp add: example_defs max_text_def tree_defs)
  have l: "1 < length (children example_xdf)"
    by (simp add: example_defs)
  have i: "build_index example_xdf (upper (strip ''0x4076A'')) = Some 1"
    by (simp add: example_index string_defs)
  have x: "xdf_address ?row = PStr ''0x4076A''" "''0x4076A'' \<noteq> []" by simp_all
  have n: "new_max ?row = PStr ''300 psi''" by simp
  show ?thesis
    unfolding update_xdf_with_spreadsheet_def
    using string_bound_aborts [where float_of_str = "\<lambda>s. None"
        and tables_by_addr = "build_index example_xdf" and root = example_xdf and log = "[]"
        and row = ?row and a = "''0x4076A''" and j = 1 and old = "PStr ''255.000000''",
        OF x i l m n]
    by blast
qed

text \<open>
  The claim as written fails on the sample document: a bound that arrives as the string
  \<open>300 psi\<close> ends the run with ValueError, nothing printed and nothing written.
\<close>

theorem string_bound_raises:
  "load_spreadsheet_data [[PStr ''Boost Ceiling'', PStr ''0x4076A'', PStr ''300 psi'', PNone]] =
     Inr [\<lparr>param_name = PStr ''Boost Ceiling'', xdf_address = PStr ''0x4076A'',
       new_max = PStr ''300 psi'', new_title = PNone\<rparr>] \<and>
   update_xdf_with_spreadsheet (\<lambda>s. None) example_xdf
     [\<lparr>param_name = PStr ''Boost Ceiling'', xdf_address = PStr ''0x4076A'',
       new_max = PStr ''300 psi'', new_title = PNone\<rparr>] =
   \<lparr>written = None, printed = [], raised = Some ValueError\<rparr>"
proof -
  let ?row = "\<lparr>param_name = PStr ''Boost Ceiling'', xdf_address = PStr ''0x4076A'',
       new_max = PStr ''300 psi'', new_title = PNone\<rparr>"
  have m: "max_text (children example_xdf ! 1) = Some (PStr ''255.000000'')"
    by (simp add: example_defs max_text_def tree_defs)
  have i: "build_index example_xdf (upper (strip ''0x4076A'')) = Some 1"
    by (simp add: example_index string_defs)
  have "process_row (\<lambda>s. None) (build_index example_xdf) (example_xdf, []) ?row =
      ((set_child example_xdf 1 (children example_xdf ! 1), []), Some ValueError)"
    using process_row_bad_bound [where ix = "build_index example_xdf" and f = "\<lambda>s. None"
        and root = example_xdf and log = "[]" and row = ?row and a = "''0x4076A''"
        and e = ValueError, OF _ _ i m]
    by (simp add: rename_title_skip)
  then show ?thesis
    by (simp add: update_xdf_with_spreadsheet_def write_tree_def)
qed

section \<open>The address index\<close>

text \<open>
  Last write wins among the tables that enter the index under one key. Two tables
  \<open>i < j\<close> have the same index key, and no table after \<open>j\<close> has it. Then the index
  maps the key to \<open>j\<close>; a record whose normalised target is the key and whose bound has
  a two-decimal form writes that form to the \<open>max\<close> of table \<open>j\<close>, and changes no child
  of the root other than \<open>j\<close>; and whatever the records of the run are, table \<open>i\<close> is
  the same after the edit pass as before.
\<close>

lemma index_key_nonempty: "index_key t = Some key \<Longrightarrow> key \<noteq> []"
  by (auto simp: index_key_def upper_def split: option.splits if_splits)

lemma same_key_last_wins:
  assumes "i < j" and "j < length (children root)"
    and "has_tag ''XDFTABLE'' (children root ! i)" and "has_tag ''XDFTABLE'' (children root ! j)"
    and "index_key (children root ! i) = Some key"
    and "index_key (children root ! j) = Some key"
    and "\<forall>k. j < k \<and> k < length (children root) \<and> has_tag ''XDFTABLE'' (children root ! k) \<longrightarrow>
           index_key (children root ! k) \<noteq> Some key"
  shows "build_index root key = Some j \<and>
         (\<forall>row a old s log.
            xdf_address row = PStr a \<and> upper (strip a) = key \<and>
            max_text (children root ! j) = Some old \<and> format_2f (new_max row) = Inr s \<longrightarrow>
            snd (process_row float_of_str (build_index root) (root, log) row) = None \<and>
            max_text (children (fst (fst (process_row float_of_str (build_index root)
               (root, log) row))) ! j) = Some (PStr s)) \<and>
         (\<forall>row a st p. xdf_address row = PStr a \<and> upper (strip a) = key \<and> p \<noteq> j \<longrightarrow>
            children (fst (fst (process_row float_of_str (build_index root) st row))) ! p =
              children (fst st) ! p) \<and>
         (\<forall>rows. children (fst (fst (process_rows float_of_str (build_index root)
              (root, []) rows))) ! i = children root ! i)"
proof -
  have ix: "build_index root key = Some j"
    using build_index_last [OF assms(2,4,6)] assms(7) by simp
  have ne: "a \<noteq> []" if "upper (strip a) = key" for a
    using index_key_nonempty [OF assms(6)] that by (auto simp: string_defs)
  have reach: "snd (process_row float_of_str (build_index root) (root, log) row) = None \<and>
      max_text (children (fst (fst (process_row float_of_str (build_index root)
         (root, log) row))) ! j) = Some (PStr s)"
    if "xdf_address row = PStr a" "upper (strip a) = key"
      "max_text (children root ! j) = Some old" "format_2f (new_max row) = Inr s"
    for row a old s log
  proof -
    let ?r = "rename_title (upper (strip a)) (new_title row) (children root ! j)"
    have i: "build_index root (upper (strip a)) = Some j" using ix that(2) by simp
    have "max_text (fst ?r) = Some old" using that(3) by (simp add: rename_title_max)
    from raise_max_writes [OF this that(4), of float_of_str "upper (strip a)"]
    obtain t' where t': "raise_max float_of_str (upper (strip a)) (new_max row) (fst ?r) =
        ((t', [UpdatedMax (old_max_of float_of_str old) (new_max row) (upper (strip a))]), None)"
      "max_text t' = Some (PStr s)" by blast
    show ?thesis
      using process_row_resolved [where ix = "build_index root" and f = float_of_str
          and root = root and log = log, OF that(1) ne [OF that(2)] i] t' assms(2)
      by (simp add: Let_def)
  qed
  have only: "children (fst (fst (process_row float_of_str (build_index root) st row))) ! p =
      children (fst st) ! p"
    if "xdf_address row = PStr a" "upper (strip a) = key" "p \<noteq> j" for row a st p
  proof -
    have "build_index root (upper (strip a)) = Some j" using ix that(2) by simp
    from process_row_resolved [where ix = "build_index root" and f = float_of_str
        and root = "fst st" and log = "snd st", OF that(1) ne [OF that(2)] this]
    show ?thesis using that(3) by (simp add: Let_def)
  qed
  have untargeted: "build_index root k \<noteq> Some i" for k
  proof
    assume k: "build_index root k = Some i"
    then have "index_key (children root ! i) = Some k" using build_index_sound by blast
    then have "k = key" using assms(5) by simp
    then show False using k ix assms(1) by simp
  qed
  have "children (fst (fst (process_rows float_of_str (build_index root) (root, []) rows))) ! i =
      children root ! i" for rows
    using process_rows_frame [of "build_index root" i float_of_str "(root, [])" rows]
      untargeted by simp
  then show ?thesis using ix reach only by blast
qed

lemma same_key_example:
  "build_index duplicate_xdf ''0X4076A'' = Some 2 \<and>
   children (fst (fst (process_rows (\<lambda>s. None) (build_index duplicate_xdf) (duplicate_xdf, [])
      [\<lparr>param_name = PStr ''Boost Ceiling'', xdf_address = PStr ''0x4076a'',
        new_max = PInt 300, new_title = PStr ''Race: Max Boost''\<rparr>]))) ! 1 =
     example_table ''Boost Ceiling'' ''0x4076a'' ''255.000000''"
proof -
  have t: "has_tag ''XDFTABLE'' (children duplicate_xdf ! 1)"
    "has_tag ''XDFTABLE'' (children duplicate_xdf ! 2)"
    by (simp_all add: example_defs has_tag_def)
  have k: "index_key (children duplicate_xdf ! 1) = Some ''0X4076A''"
    "index_key (children duplicate_xdf ! 2) = Some ''0X4076A''"
    by (simp_all add: example_defs index_defs tree_defs string_defs)
  have l: "(1::nat) < 2" "2 < length (children duplicate_xdf)"
    by (simp_all add: example_defs)
  have n: "\<forall>k. 2 < k \<and> k < length (children duplicate_xdf) \<and>
      has_tag ''XDFTABLE'' (children duplicate_xdf ! k) \<longrightarrow>
      index_key (children duplicate_xdf ! k) \<noteq> Some ''0X4076A''"
    using l(2) by (auto simp: example_defs)
  have c: "children duplicate_xdf ! 1 = example_table ''Boost Ceiling'' ''0x4076a'' ''255.000000''"
    by (simp add: example_defs)
  note w = same_key_last_wins [where float_of_str = "\<lambda>s. None", OF l t k n]
  from w have a: "build_index duplicate_xdf ''0X4076A'' = Some 2"
    by (rule conjunct1)
  from w have b: "children (fst (fst (process_rows (\<lambda>s. None) (build_index duplicate_xdf)
      (duplicate_xdf, [])
      [\<lparr>param_name = PStr ''Boost Ceiling'', xdf_address = PStr ''0x4076a'',
        new_max = PInt 300, new_title = PStr ''Race: Max Boost''\<rparr>]))) ! 1 =
      children duplicate_xdf ! 1"
    by blast
  from a b [unfolded c] show ?thesis by (rule conjI)
qed

lemma raise_max_example_table:
  "raise_max f addr (PInt 300) (example_table title address old) =
     ((example_table title address ''300.00'',
       [UpdatedMax (old_max_of f (PStr old)) (PInt 300) addr]), None)"
  by (simp add: raise_max_def example_table_def tree_defs Let_def float_of_int_small format_defs)

text \<open>
  C5 on a document with two tables whose stored addresses are \<open>0x4076A\<close> and the same
  followed by a space: trimmed and uppercased they are the same address. The index does
  not trim, so it keeps the two tables under two keys and the key without the space
  belongs to the earlier table. A record that targets \<open>0x4076A\<close> is looked up under the
  trimmed key: the run writes the new bound to the earlier table and leaves the later
  one as it was.
\<close>

theorem earlier_table_mutated:
  "upper (strip ''0x4076A'') = upper (strip ''0x4076A '') \<and>
   build_index spaced_duplicate_xdf ''0X4076A'' = Some 1 \<and>
   update_xdf_with_spreadsheet (\<lambda>s. Some (FFin False 255 0)) spaced_duplicate_xdf
     [\<lparr>param_name = PStr ''Boost Ceiling'', xdf_address = PStr ''0x4076A'',
       new_max = PInt 300, new_title = PNone\<rparr>] =
   \<lparr>written = Some
      (Element ''XDFFORMAT'' [(''version'', ''1.60'')] PNone
        [example_header,
         example_table ''Boost Ceiling'' ''0x4076A'' ''300.00'',
         example_table ''Boost Ceiling (copy)'' ''0x4076A '' ''255.000000'']),
    printed = [UpdatedMax (Some (FFin False 255 0)) (PInt 300) ''0X4076A'', WroteOutput],
    raised = None\<rparr>"
proof -
  let ?f = "\<lambda>s::string. Some (FFin False 255 0)"
  let ?row = "\<lparr>param_name = PStr ''Boost Ceiling'', xdf_address = PStr ''0x4076A'',
       new_max = PInt 300, new_title = PNone\<rparr>"
  let ?out = "Element ''XDFFORMAT'' [(''version'', ''1.60'')] PNone
        [example_header,
         example_table ''Boost Ceiling'' ''0x4076A'' ''300.00'',
         example_table ''Boost Ceiling (copy)'' ''0x4076A '' ''255.000000'']"
  have n: "upper (strip ''0x4076A'') = ''0X4076A''" "upper (strip ''0x4076A '') = ''0X4076A''"
    by (simp_all add: string_defs)
  have ix: "build_index spaced_duplicate_xdf = [''0X4076A'' \<mapsto> 1, ''0X4076A '' \<mapsto> Suc (Suc 0)]"
    by (simp add: example_defs index_defs tree_defs string_defs enumerate_eq_zip)
  have i: "build_index spaced_duplicate_xdf (upper (strip ''0x4076A'')) = Some 1"
    unfolding n ix by simp
  have t: "children spaced_duplicate_xdf ! Suc 0 =
      example_table ''Boost Ceiling'' ''0x4076A'' ''255.000000''"
    by (simp add: spaced_duplicate_xdf_def)
  have o: "set_child spaced_duplicate_xdf (Suc 0)
      (example_table ''Boost Ceiling'' ''0x4076A'' ''300.00'') = ?out"
    by (simp add: spaced_duplicate_xdf_def set_child_def)
  have p: "process_row ?f (build_index spaced_duplicate_xdf) (spaced_duplicate_xdf, []) ?row =
      ((?out, [UpdatedMax (Some (FFin False 255 0)) (PInt 300) ''0X4076A'']), None)"
    using process_row_resolved [where ix = "build_index spaced_duplicate_xdf" and f = ?f
        and root = spaced_duplicate_xdf and log = "[]" and row = ?row and a = "''0x4076A''",
        OF _ _ i]
    by (simp add: Let_def rename_title_skip t raise_max_example_table o n)
  have s: "serializable ?out"
    by (simp add: example_header_def example_table_def)
  have "update_xdf_with_spreadsheet ?f spaced_duplicate_xdf [?row] =
      \<lparr>written = Some ?out,
       printed = [UpdatedMax (Some (FFin False 255 0)) (PInt 300) ''0X4076A'', WroteOutput],
       raised = None\<rparr>"
    using p s by (simp add: update_xdf_with_spreadsheet_def write_tree_def)
  then show ?thesis using n i by simp
qed

text \<open>
  C2 on a document whose stored address ends in a space. The index keeps the space in
  its key, the lookup trims the key of the record, and so a record that spells the
  address exactly as the document does finds no table: the run prints the warning and
  writes the document back unchanged.
\<close>

theorem stored_address_not_trimmed:
  "build_index padded_xdf ''0X4076A '' = Some 1 \<and>
   update_xdf_with_spreadsheet (\<lambda>s. None) padded_xdf
     [\<lparr>param_name = PStr ''Boost Ceiling'', xdf_address = PStr ''0x4076A '',
       new_max = PInt 300, new_title = PNone\<rparr>] =
   \<lparr>written = Some padded_xdf,
    printed = [NoTableWarning ''0X4076A'' (PStr ''Boost Ceiling''), WroteOutput],
    raised = None\<rparr>"
proof -
  have s: "serializable padded_xdf"
    by (simp add: example_defs)
  show ?thesis
    using s by (simp add: padded_index update_xdf_with_spreadsheet_def process_row_def
      write_tree_def string_defs)
qed

section \<open>Facts about the rename step and the title step\<close>

lemma rename_categories_map:
  "fst (rename_categories rm cs) = map (renamed rm) cs"
  by (induction cs) (auto simp: renamed_def split: prod.splits)

lemma rename_step_header:
  assumes "find_child (has_tag ''XDFHEADER'') root = Some h"
  shows "fst (rename_step rm root) =
     set_child root h (set_children (children root ! h)
       (map (renamed rm) (children (children root ! h))))"
  using assms rename_categories_map [of rm "children (children root ! h)"]
  by (auto simp: rename_step_def Let_def split: prod.splits)

lemma rename_step_no_header:
  "find_child (has_tag ''XDFHEADER'') root = None \<Longrightarrow> rename_step rm root = (root, [])"
  by (simp add: rename_step_def)

lemma cat_name_set_attr: "cat_name (set_attr c ''name'' v) = v"
  by (simp add: cat_name_def get_attr_set_attr)

lemma renamed_hit:
  "has_tag ''CATEGORY'' c \<Longrightarrow> rm (cat_name c) = Some v \<Longrightarrow> renamed rm c = set_attr c ''name'' v"
  by (simp add: renamed_def rename_category_def)

lemma renamed_miss: "rm (cat_name c) = None \<Longrightarrow> renamed rm c = c"
  by (simp add: renamed_def rename_category_def)

lemma renamed_idem:
  assumes "\<forall>k v. rm k = Some v \<longrightarrow> rm v = None"
  shows "renamed rm (renamed rm c) = renamed rm c"
proof (cases "has_tag ''CATEGORY'' c")
  case False
  then show ?thesis by (simp add: renamed_def)
next
  case True
  show ?thesis
  proof (cases "rm (cat_name c)")
    case None
    then show ?thesis by (simp add: renamed_miss)
  next
    case (Some v)
    then have "rm v = None" using assms by blast
    then show ?thesis using True Some
      by (simp add: renamed_hit renamed_miss cat_name_set_attr)
  qed
qed

lemma rename_step_idem:
  assumes "\<forall>k v. rm k = Some v \<longrightarrow> rm v = None"
  shows "fst (rename_step rm (fst (rename_step rm root))) = fst (rename_step rm root)"
proof (cases "find_child (has_tag ''XDFHEADER'') root")
  case None
  then show ?thesis by (simp add: rename_step_no_header)
next
  case (Some h)
  let ?hdr = "children root ! h"
  let ?hdr' = "set_children ?hdr (map (renamed rm) (children ?hdr))"
  have h: "h < length (children root)"
    using first_pos_Some [of "has_tag ''XDFHEADER''" "children root" h] Some
    by (simp add: find_child_def)
  have one: "fst (rename_step rm root) = set_child root h ?hdr'"
    by (rule rename_step_header [OF Some])
  have f: "find_child (has_tag ''XDFHEADER'') (set_child root h ?hdr') = Some h"
    unfolding find_child_def sel_set_child using Some
    by (subst first_pos_update) (simp_all add: has_tag_def find_child_def)
  have two: "fst (rename_step rm (set_child root h ?hdr')) =
      set_child (set_child root h ?hdr') h
        (set_children (children (set_child root h ?hdr') ! h)
          (map (renamed rm) (children (children (set_child root h ?hdr') ! h))))"
    by (rule rename_step_header [OF f])
  have mm: "renamed rm \<circ> renamed rm = renamed rm"
    by (rule ext) (simp add: renamed_idem [OF assms])
  show ?thesis
    unfolding one two using h by (simp add: set_child_def set_children_def mm)
qed

lemma header_found:
  assumes "find_child (has_tag ''XDFHEADER'') root = Some h"
  shows "h < length (children root)"
  using first_pos_Some [of "has_tag ''XDFHEADER''" "children root" h] assms
  by (simp add: find_child_def)

lemma example_header_pos: "find_child (has_tag ''XDFHEADER'') example_xdf = Some 0"
  by (simp add: example_defs tree_defs)

lemma parsed_sel: "parsed e \<longleftrightarrow> parsed_text (text_of e) \<and> list_all parsed (children e)"
  by (cases e) simp

lemma serializable_sel:
  "serializable e \<longleftrightarrow> writable_text (text_of e) \<and> list_all serializable (children e)"
  by (cases e) simp

lemma parsed_text_writable: "parsed_text v \<Longrightarrow> writable_text v"
  by (cases v) simp_all

lemma parsed_serializable: "parsed e \<Longrightarrow> serializable e"
proof (induction e)
  case (Element t a x cs)
  then show ?case by (auto simp: list_all_iff parsed_text_writable)
qed

lemma parsed_child: "parsed e \<Longrightarrow> i < length (children e) \<Longrightarrow> parsed (children e ! i)"
  by (simp add: parsed_sel [of e] list_all_length)

lemma parsed_set_child: "parsed e \<Longrightarrow> parsed c \<Longrightarrow> parsed (set_child e i c)"
  using set_update_subset_insert [of "children e" i c]
  by (auto simp: parsed_sel [of e] parsed_sel [of "set_child e i c"] list_all_iff)

lemma parsed_set_children: "parsed e \<Longrightarrow> list_all parsed cs \<Longrightarrow> parsed (set_children e cs)"
  by (simp add: parsed_sel [of e] parsed_sel [of "set_children e cs"])

lemma parsed_set_attr: "parsed e \<Longrightarrow> parsed (set_attr e k v)"
  by (simp add: parsed_sel [of e] parsed_sel [of "set_attr e k v"])

lemma parsed_set_text: "parsed e \<Longrightarrow> parsed_text v \<Longrightarrow> parsed (set_text e v)"
  by (simp add: parsed_sel [of e] parsed_sel [of "set_text e v"])

lemma parsed_renamed: "parsed c \<Longrightarrow> parsed (renamed rm c)"
  by (auto simp: renamed_def rename_category_def Let_def parsed_set_attr split: option.splits)

lemma parsed_rename_step: "parsed root \<Longrightarrow> parsed (fst (rename_step rm root))"
proof (cases "find_child (has_tag ''XDFHEADER'') root")
  case None
  then show "parsed root \<Longrightarrow> ?thesis" by (simp add: rename_step_no_header)
next
  case (Some h)
  assume p: "parsed root"
  have hp: "parsed (children root ! h)"
    using p header_found [OF Some] by (rule parsed_child)
  then have "list_all parsed (map (renamed rm) (children (children root ! h)))"
    by (auto simp: parsed_sel [of "children root ! h"] list_all_iff parsed_renamed)
  then show ?thesis
    unfolding rename_step_header [OF Some]
    using p hp by (intro parsed_set_child parsed_set_children)
qed

lemma title_text_parsed: "parsed t \<Longrightarrow> title_text t = Some v \<Longrightarrow> parsed_text v"
proof -
  assume p: "parsed t" and v: "title_text t = Some v"
  from v obtain j where j: "find_child (has_tag ''title'') t = Some j"
    "v = text_of (children t ! j)"
    by (auto simp: title_text_def split: option.splits)
  have "j < length (children t)"
    using first_pos_Some [of "has_tag ''title''" "children t" j] j(1)
    by (simp add: find_child_def)
  then have "parsed (children t ! j)" using p by (simp add: parsed_child)
  then show ?thesis using j(2) by (simp add: parsed_sel [of "children t ! j"])
qed

lemma prefix_title_ok:
  assumes "\<And>v. title_text t = Some v \<Longrightarrow> parsed_text v"
  shows "snd (prefix_title t) = None"
proof (cases "find_child (has_tag ''title'') t")
  case None
  then show ?thesis by (simp add: prefix_title_def)
next
  case (Some j)
  then have "parsed_text (text_of (children t ! j))"
    using assms [of "text_of (children t ! j)"] by (simp add: title_text_def)
  then show ?thesis using Some
    by (cases "text_of (children t ! j)") (simp_all add: prefix_title_def Let_def)
qed

lemma prefix_title_hit:
  assumes "title_text t = Some (PStr s)" and "contains ''Ignition'' s"
  shows "title_text (fst (fst (prefix_title t))) = Some (PStr (''RACE HIGH PERF '' @ s))"
proof -
  from assms(1) obtain j where j: "find_child (has_tag ''title'') t = Some j"
    "text_of (children t ! j) = PStr s"
    by (auto simp: title_text_def split: option.splits)
  have l: "j < length (children t)"
    using first_pos_Some [of "has_tag ''title''" "children t" j] j(1)
    by (simp add: find_child_def)
  have ne: "s \<noteq> []" using assms(2) by auto
  let ?t' = "set_child t j (set_text (children t ! j) (PStr (''RACE HIGH PERF '' @ s)))"
  have r: "fst (fst (prefix_title t)) = ?t'"
    using j assms(2) ne by (simp add: prefix_title_def Let_def)
  have f: "find_child (has_tag ''title'') ?t' = Some j"
    unfolding find_child_def sel_set_child using j(1)
    by (subst first_pos_update) (simp_all add: has_tag_def find_child_def)
  show ?thesis unfolding r using f l by (simp add: title_text_def)
qed

lemma prefix_title_miss:
  assumes "\<And>s. title_text t = Some (PStr s) \<Longrightarrow> \<not> contains ''Ignition'' s"
    and "\<And>v. title_text t = Some v \<Longrightarrow> parsed_text v"
  shows "fst (fst (prefix_title t)) = t"
proof (cases "find_child (has_tag ''title'') t")
  case None
  then show ?thesis by (simp add: prefix_title_def)
next
  case (Some j)
  then have tt: "title_text t = Some (text_of (children t ! j))" by (simp add: title_text_def)
  show ?thesis
  proof (cases "text_of (children t ! j)")
    case (PStr s)
    then have "\<not> contains ''Ignition'' s" using assms(1) [of s] tt by simp
    then show ?thesis using Some PStr by (simp add: prefix_title_def Let_def)
  next
    case PNone
    then show ?thesis using Some by (simp add: prefix_title_def Let_def)
  qed (use assms(2) [OF tt] in simp_all)
qed

lemma parsed_prefix_title: "parsed t \<Longrightarrow> parsed (fst (fst (prefix_title t)))"
  by (auto simp: prefix_title_def Let_def parsed_set_child parsed_set_text parsed_child
      dest!: first_pos_Some [of "has_tag ''title''" "children t", folded find_child_def]
      split: option.splits pyval.splits)

lemma parsed_retitled: "parsed t \<Longrightarrow> parsed (retitled t)"
  by (simp add: retitled_def parsed_prefix_title)

lemma prefix_titles_ok:
  "\<forall>t \<in> set ts. has_tag ''XDFTABLE'' t \<longrightarrow> snd (prefix_title t) = None \<Longrightarrow>
     fst (fst (prefix_titles ts)) = map retitled ts \<and> snd (prefix_titles ts) = None"
proof (induction ts)
  case Nil
  then show ?case by simp
next
  case (Cons t ts)
  then have ih: "fst (fst (prefix_titles ts)) = map retitled ts" "snd (prefix_titles ts) = None"
    by simp_all
  show ?case
  proof (cases "has_tag ''XDFTABLE'' t")
    case False
    then have "retitled t = t" by (simp add: retitled_def)
    then show ?thesis using False ih by (auto split: prod.splits)
  next
    case True
    then have "snd (prefix_title t) = None" using Cons.prems by simp
    moreover have "retitled t = fst (fst (prefix_title t))" using True by (simp add: retitled_def)
    ultimately show ?thesis using True ih
      by (auto split: prod.splits option.splits)
  qed
qed

lemma rename_step_tables:
  "length (children (fst (rename_step rm root))) = length (children root) \<and>
   (has_tag ''XDFTABLE'' (children root ! i) \<longrightarrow>
      children (fst (rename_step rm root)) ! i = children root ! i)"
proof (cases "find_child (has_tag ''XDFHEADER'') root")
  case None
  then show ?thesis by (simp add: rename_step_no_header)
next
  case (Some h)
  have "has_tag ''XDFHEADER'' (children root ! h)"
    using first_pos_Some [of "has_tag ''XDFHEADER''" "children root" h] Some
    by (simp add: find_child_def)
  then have "has_tag ''XDFTABLE'' (children root ! i) \<Longrightarrow> h \<noteq> i"
    by (auto simp: has_tag_def)
  then show ?thesis unfolding rename_step_header [OF Some] by auto
qed

lemma title_step_parsed:
  assumes "parsed root1"
  shows "title_step (root1, log1) =
     ((set_children root1 (map retitled (children root1)),
       log1 @ snd (fst (prefix_titles (children root1)))), None)"
proof -
  have "\<forall>t \<in> set (children root1). has_tag ''XDFTABLE'' t \<longrightarrow> snd (prefix_title t) = None"
  proof (intro ballI impI)
    fix t assume "t \<in> set (children root1)"
    then have "parsed t" using assms by (simp add: parsed_sel [of root1] list_all_iff)
    then show "snd (prefix_title t) = None"
      by (intro prefix_title_ok) (rule title_text_parsed)
  qed
  from prefix_titles_ok [OF this] show ?thesis
    by (auto simp: title_step_def split: prod.splits)
qed

section \<open>Category names\<close>

text \<open>
  C6, as the code has it. The step looks at the \<open>CATEGORY\<close> children of the first
  \<open>XDFHEADER\<close> child of the root, and only at them. For such a category, with
  \<open>cat_name\<close> its name (the empty string when it has none): if the name is a key of the
  rename map, the name attribute is the mapped value after the step; if it is not, the
  element is the same after the step. Every other child of the root is left as it was.
\<close>

theorem header_categories_renamed:
  assumes "find_child (has_tag ''XDFHEADER'') root = Some h"
    and "k < length (children (children root ! h))"
    and "has_tag ''CATEGORY'' (children (children root ! h) ! k)"
  shows "(\<forall>v. rename_map (cat_name (children (children root ! h) ! k)) = Some v \<longrightarrow>
            get_attr (children (children (fst (rename_step rename_map root)) ! h) ! k) ''name''
              = Some v) \<and>
         (rename_map (cat_name (children (children root ! h) ! k)) = None \<longrightarrow>
            children (children (fst (rename_step rename_map root)) ! h) ! k =
              children (children root ! h) ! k) \<and>
         (\<forall>p. p \<noteq> h \<longrightarrow> children (fst (rename_step rename_map root)) ! p = children root ! p)"
proof -
  let ?c = "children (children root ! h) ! k"
  have h: "h < length (children root)" by (rule header_found [OF assms(1)])
  have r: "fst (rename_step rename_map root) =
      set_child root h (set_children (children root ! h)
        (map (renamed rename_map) (children (children root ! h))))"
    by (rule rename_step_header [OF assms(1)])
  have c: "children (children (fst (rename_step rename_map root)) ! h) ! k = renamed rename_map ?c"
    unfolding r using h assms(2) by simp
  have hit: "get_attr (renamed rename_map ?c) ''name'' = Some v"
    if "rename_map (cat_name ?c) = Some v" for v
    using renamed_hit [where rm = rename_map, OF assms(3) that] by (simp add: get_attr_set_attr)
  have miss: "renamed rename_map ?c = ?c" if "rename_map (cat_name ?c) = None"
    by (rule renamed_miss [where rm = rename_map, OF that])
  have others: "children (fst (rename_step rename_map root)) ! p = children root ! p"
    if "p \<noteq> h" for p
    unfolding r using that by simp
  show ?thesis unfolding c using hit miss others by blast
qed

theorem header_categories_renamed_witness:
  "get_attr (children (children (fst (rename_step [''Fuel'' \<mapsto> ''RACE: Fuel & AFR'']
      example_xdf)) ! 0) ! 0) ''name'' = Some ''RACE: Fuel & AFR'' \<and>
   children (children (fst (rename_step [''Fuel'' \<mapsto> ''RACE: Fuel & AFR''] example_xdf)) ! 0) ! 1
     = Element ''CATEGORY'' [(''index'', ''0x1''), (''name'', ''Ignition'')] PNone []"
proof -
  let ?rm = "[''Fuel'' \<mapsto> ''RACE: Fuel & AFR'']"
  have k: "0 < length (children (children example_xdf ! 0))"
    "1 < length (children (children example_xdf ! 0))"
    by (simp_all add: example_defs)
  have c: "has_tag ''CATEGORY'' (children (children example_xdf ! 0) ! 0)"
    "has_tag ''CATEGORY'' (children (children example_xdf ! 0) ! 1)"
    by (simp_all add: example_defs has_tag_def)
  have n: "?rm (cat_name (children (children example_xdf ! 0) ! 0)) = Some ''RACE: Fuel & AFR''"
    "?rm (cat_name (children (children example_xdf ! 0) ! 1)) = None"
    by (simp_all add: example_defs cat_name_def get_attr_def)
  have e: "children (children example_xdf ! 0) ! 1 =
      Element ''CATEGORY'' [(''index'', ''0x1''), (''name'', ''Ignition'')] PNone []"
    by (simp add: example_defs)
  from header_categories_renamed [where rename_map = ?rm, OF example_header_pos k(1) c(1)] n(1)
  have a: "get_attr (children (children (fst (rename_step ?rm example_xdf)) ! 0) ! 0) ''name''
      = Some ''RACE: Fuel & AFR''" by blast
  from header_categories_renamed [where rename_map = ?rm, OF example_header_pos k(2) c(2)] n(2)
  have b: "children (children (fst (rename_step ?rm example_xdf)) ! 0) ! 1 =
      children (children example_xdf ! 0) ! 1" by blast
  from a b [unfolded e] show ?thesis by (rule conjI)
qed

text \<open>
  The claim as written speaks of every category node of the document. A \<open>CATEGORY\<close>
  inside a table whose name is a key of the map keeps its name.
\<close>

theorem table_category_not_renamed:
  "has_tag ''CATEGORY'' (children (children table_category_xdf ! 1) ! 1) \<and>
   get_attr (children (children table_category_xdf ! 1) ! 1) ''name'' = Some ''Fuel'' \<and>
   get_attr (children (children (fst (rename_step [''Fuel'' \<mapsto> ''RACE: Fuel & AFR'']
      table_category_xdf)) ! 1) ! 1) ''name'' = Some ''Fuel''"
proof -
  have f: "find_child (has_tag ''XDFHEADER'') table_category_xdf = Some 0"
    by (simp add: table_category_xdf_def example_defs tree_defs)
  have "children (fst (rename_step [''Fuel'' \<mapsto> ''RACE: Fuel & AFR''] table_category_xdf)) ! 1 =
      children table_category_xdf ! 1"
    unfolding rename_step_header [OF f] by simp
  then show ?thesis
    by (simp add: table_category_xdf_def has_tag_def get_attr_def)
qed

text \<open>
  C9, as the code has it. When no mapped value is itself a key of the rename map, the
  step is idempotent: running it on its own result changes nothing. It is not idempotent
  in general: with the user answering \<open>Ignition\<close> for the menu \<open>Fuel\<close>, a second run
  renames the former \<open>Fuel\<close> category once more, to the replacement of \<open>Ignition\<close>.
\<close>

theorem category_rename_twice:
  "((\<forall>k v. rename_map k = Some v \<longrightarrow> rename_map v = None) \<longrightarrow>
      fst (rename_step rename_map (fst (rename_step rename_map root))) =
        fst (rename_step rename_map root)) \<and>
   fst (rename_step (prompt_user_for_menu_updates '''' ''Ignition'' '''' '''')
      (fst (rename_step (prompt_user_for_menu_updates '''' ''Ignition'' '''' '''') example_xdf)))
     \<noteq> fst (rename_step (prompt_user_for_menu_updates '''' ''Ignition'' '''' '''') example_xdf)"
proof -
  let ?rm = "prompt_user_for_menu_updates '''' ''Ignition'' '''' ''''"
  let ?once = "fst (rename_step ?rm example_xdf)"
  have rm: "?rm ''Fuel'' = Some ''Ignition''" "?rm ''Ignition'' = Some ''RACE: Spark & Timing''"
    by (simp_all add: prompt_user_for_menu_updates_def answer_def string_defs)
  have k: "0 < length (children (children example_xdf ! 0))"
    by (simp add: example_defs)
  have c: "has_tag ''CATEGORY'' (children (children example_xdf ! 0) ! 0)"
    by (simp add: example_defs has_tag_def)
  have n: "cat_name (children (children example_xdf ! 0) ! 0) = ''Fuel''"
    by (simp add: example_defs cat_name_def get_attr_def)
  have one: "?once = set_child example_xdf 0 (set_children (children example_xdf ! 0)
      (map (renamed ?rm) (children (children example_xdf ! 0))))"
    by (rule rename_step_header [OF example_header_pos])
  have c1: "children (children ?once ! 0) ! 0 =
      set_attr (children (children example_xdf ! 0) ! 0) ''name'' ''Ignition''"
    unfolding one using renamed_hit [where rm = ?rm and v = "''Ignition''", OF c] rm(1) n
    by (simp add: example_defs)
  have f: "find_child (has_tag ''XDFHEADER'') ?once = Some 0"
    unfolding one by (simp add: example_defs tree_defs)
  have two: "fst (rename_step ?rm ?once) = set_child ?once 0 (set_children (children ?once ! 0)
      (map (renamed ?rm) (children (children ?once ! 0))))"
    by (rule rename_step_header [OF f])
  have l1: "0 < length (children ?once)" "0 < length (children (children ?once ! 0))"
    unfolding one by (simp_all add: example_defs)
  have c2: "children (children (fst (rename_step ?rm ?once)) ! 0) ! 0 =
      renamed ?rm (children (children ?once ! 0) ! 0)"
    unfolding two using l1 by simp
  have "renamed ?rm (children (children ?once ! 0) ! 0) =
      set_attr (children (children ?once ! 0) ! 0) ''name'' ''RACE: Spark & Timing''"
    unfolding c1 using rm(2) c
    by (intro renamed_hit [where rm = ?rm]) (simp_all add: has_tag_def cat_name_set_attr)
  then have "get_attr (children (children (fst (rename_step ?rm ?once)) ! 0) ! 0) ''name'' =
      Some ''RACE: Spark & Timing''"
    unfolding c2 by (simp add: get_attr_set_attr)
  moreover have "get_attr (children (children ?once ! 0) ! 0) ''name'' = Some ''Ignition''"
    unfolding c1 by (simp add: get_attr_set_attr)
  ultimately have "fst (rename_step ?rm ?once) \<noteq> ?once" by auto
  then show ?thesis using rename_step_idem by blast
qed

theorem category_rename_twice_witness:
  "fst (rename_step (prompt_user_for_menu_updates '''' '''' '''' '''')
      (fst (rename_step (prompt_user_for_menu_updates '''' '''' '''' '''') example_xdf))) =
   fst (rename_step (prompt_user_for_menu_updates '''' '''' '''' '''') example_xdf)"
proof -
  let ?rm = "prompt_user_for_menu_updates '''' '''' '''' ''''"
  have d: "\<forall>k v. ?rm k = Some v \<longrightarrow> ?rm v = None"
    by (simp add: prompt_user_for_menu_updates_def answer_def string_defs)
  from category_rename_twice [where rename_map = ?rm and root = example_xdf] d
  show ?thesis by blast
qed

text \<open>
  The claim as written asks for a document and a rename map, none of whose values is a
  key, on which two runs differ from one. There is none.
\<close>

theorem rename_idempotent_without_chains:
  "\<not> (\<exists>rename_map root.
        (\<forall>k v. rename_map k = Some v \<longrightarrow> rename_map v = None) \<and>
        fst (rename_step rename_map (fst (rename_step rename_map root))) \<noteq>
          fst (rename_step rename_map root))"
  using rename_step_idem by blast

section \<open>Table titles\<close>

text \<open>
  C7. On a parsed document, for every rename map, the run ends without exception and
  writes a tree with this property for each table \<open>i\<close>: if the text of its title
  contains \<open>Ignition\<close>, the title text of the written table is that text behind the
  prefix \<open>RACE HIGH PERF\<close> and a space; if the table has no title, or a title without
  text, or with a text that does not contain \<open>Ignition\<close>, the written table is the
  table of the input.
\<close>

theorem ignition_titles_prefixed:
  assumes "parsed root" and "i < length (children root)"
    and "has_tag ''XDFTABLE'' (children root ! i)"
  shows "\<exists>root'. written (update_xdf_for_high_performance rename_map root) = Some root' \<and>
     raised (update_xdf_for_high_performance rename_map root) = None \<and>
     (\<forall>s. title_text (children root ! i) = Some (PStr s) \<and> contains ''Ignition'' s \<longrightarrow>
        title_text (children root' ! i) = Some (PStr (''RACE HIGH PERF '' @ s))) \<and>
     ((\<forall>s. title_text (children root ! i) = Some (PStr s) \<longrightarrow> \<not> contains ''Ignition'' s) \<longrightarrow>
        children root' ! i = children root ! i)"
proof -
  obtain root1 log1 where r1: "rename_step rename_map root = (root1, log1)"
    by (cases "rename_step rename_map root")
  have p1: "parsed root1"
    using parsed_rename_step [OF assms(1), of rename_map] r1 by simp
  have c1: "length (children root1) = length (children root)"
    "children root1 ! i = children root ! i"
    using rename_step_tables [of rename_map root i] r1 assms(3) by simp_all
  let ?root' = "set_children root1 (map retitled (children root1))"
  have "list_all parsed (map retitled (children root1))"
    using p1 by (auto simp: parsed_sel [of root1] list_all_iff parsed_retitled)
  then have "parsed ?root'" using p1 by (intro parsed_set_children)
  then have s: "serializable ?root'" by (rule parsed_serializable)
  have u: "update_xdf_for_high_performance rename_map root =
      \<lparr>written = Some ?root',
       printed = (log1 @ snd (fst (prefix_titles (children root1)))) @ [WroteOutput],
       raised = None\<rparr>"
    using s by (simp add: update_xdf_for_high_performance_def r1 title_step_parsed [OF p1]
        write_tree_def)
  have t: "parsed (children root ! i)" using assms(1,2) by (rule parsed_child)
  have c: "children ?root' ! i = fst (fst (prefix_title (children root ! i)))"
    using c1 assms(2,3) by (simp add: retitled_def)
  have hit: "title_text (children ?root' ! i) = Some (PStr (''RACE HIGH PERF '' @ s))"
    if "title_text (children root ! i) = Some (PStr s)" "contains ''Ignition'' s" for s
    unfolding c using that by (rule prefix_title_hit)
  have miss: "children ?root' ! i = children root ! i"
    if "\<forall>s. title_text (children root ! i) = Some (PStr s) \<longrightarrow> \<not> contains ''Ignition'' s"
    unfolding c using that title_text_parsed [OF t]
    by (intro prefix_title_miss) auto
  show ?thesis using u hit miss by auto
qed

theorem ignition_titles_prefixed_witness:
  "\<exists>root'. written (update_xdf_for_high_performance
        (prompt_user_for_menu_updates '''' '''' '''' '''') example_xdf) = Some root' \<and>
     title_text (children root' ! 1) = Some (PStr ''RACE HIGH PERF Ignition Timing Base'')"
proof -
  have p: "parsed example_xdf" by (simp add: example_defs)
  have l: "1 < length (children example_xdf)" by (simp add: example_defs)
  have x: "has_tag ''XDFTABLE'' (children example_xdf ! 1)"
    by (simp add: example_defs has_tag_def)
  have t: "title_text (children example_xdf ! 1) = Some (PStr ''Ignition Timing Base'')"
    by (simp add: example_defs title_text_def tree_defs)
  have c: "contains ''Ignition'' ''Ignition Timing Base''" by simp
  from ignition_titles_prefixed [OF p l x,
      of "prompt_user_for_menu_updates '''' '''' '''' ''''"] t c
  show ?thesis by auto
qed

end
